theory Spec2Isabelle
  imports Main "HOL-Library.AList" "HOL-Library.Sublist"
begin

section \<open>Whiteboard synchronisation server: data model\<close>

text \<open>
  The repository holds two versions of the server. The file with the event queue
  (the one that declares \<^verbatim>\<open>EVENT_QUEUE_KEY\<close> and \<^verbatim>\<open>replayMissedEvents\<close>) is embedded
  under the source's names; the handlers of \<^verbatim>\<open>src/server.js\<close>, which has neither the
  event queue nor the broadcast of user events, carry the suffix \<open>_server\<close>.
\<close>

subsection \<open>JSON values\<close>

text \<open>
  A value that \<^verbatim>\<open>JSON.parse\<close> can return. A number is kept as the text that JavaScript's
  \<^verbatim>\<open>String\<close> gives for it: the handlers use a number of a payload only as a property key.
  \<^verbatim>\<open>undefined\<close> is not a JSON value; a JavaScript value that may be \<^verbatim>\<open>undefined\<close> is a
  \<open>json option\<close>, with \<open>None\<close> for \<^verbatim>\<open>undefined\<close>.
  An object is the association list of its own properties; the handlers never depend on
  their order.
\<close>

datatype json =
    JNull
  | JBool bool
  | JNum string
  | JStr string
  | JArr "json list"
  | JObj "(string \<times> json) list"

fun nth_opt :: "'a list \<Rightarrow> nat \<Rightarrow> 'a option" where
  "nth_opt [] n = None"
| "nth_opt (x # xs) 0 = Some x"
| "nth_opt (x # xs) (Suc n) = nth_opt xs n"

subsection \<open>Errors and responses\<close>

text \<open>What a handler can throw: a store or gateway call that is rejected, a store command
  that replies with an error, a \<^verbatim>\<open>TypeError\<close> of the language, the \<^verbatim>\<open>ReferenceError\<close> of an
  undeclared variable, and the error of an HTTP response that is ended with an invalid
  status code.\<close>

datatype error = IOError | ReplyError | TypeError | ReferenceError | InvalidStatusCode

fun join_comma :: "string list \<Rightarrow> string" where
  "join_comma [] = []"
| "join_comma [s] = s"
| "join_comma (s # t # ss) = s @ '','' @ join_comma (t # ss)"

text \<open>JavaScript's conversion of a value to a string, as \<^verbatim>\<open>obj[id]\<close> does it for its key. An
  array joins its elements with commas, \<^verbatim>\<open>null\<close> elements as the empty string. An object
  gives \<^verbatim>\<open>[object Object]\<close> through \<^verbatim>\<open>Object.prototype.toString\<close>, unless it has an own
  property \<^verbatim>\<open>toString\<close>: that one is a JSON value, so it cannot be called, and neither it
  nor \<^verbatim>\<open>valueOf\<close> yields a primitive: the conversion throws a \<^verbatim>\<open>TypeError\<close>.\<close>

fun toString :: "json \<Rightarrow> error + string"
  and toString_elems :: "json list \<Rightarrow> error + string list" where
  "toString JNull = Inr ''null''"
| "toString (JBool b) = Inr (if b then ''true'' else ''false'')"
| "toString (JNum s) = Inr s"
| "toString (JStr s) = Inr s"
| "toString (JArr xs) =
     (case toString_elems xs of Inl e \<Rightarrow> Inl e | Inr ss \<Rightarrow> Inr (join_comma ss))"
| "toString (JObj ps) =
     (if map_of ps ''toString'' = None then Inr ''[object Object]'' else Inl TypeError)"
| "toString_elems [] = Inr []"
| "toString_elems (x # xs) =
     (case (if x = JNull then Inr [] else toString x) of
        Inl e \<Rightarrow> Inl e
      | Inr s \<Rightarrow> (case toString_elems xs of Inl e \<Rightarrow> Inl e | Inr ss \<Rightarrow> Inr (s # ss)))"

text \<open>The property key of \<^verbatim>\<open>obj[id]\<close>.\<close>

definition propertyKey :: "json option \<Rightarrow> error + string" where
  "propertyKey v = (case v of None \<Rightarrow> Inr ''undefined'' | Some j \<Rightarrow> toString j)"

text \<open>What becomes of a user event request: \<^verbatim>\<open>res.success()\<close> answers it, or an error
  leaves the handler uncaught.\<close>

datatype response = Success | Uncaught error

text \<open>\<^verbatim>\<open>message.name\<close> and \<^verbatim>\<open>message.data\<close>: reading a property of \<^verbatim>\<open>null\<close> throws, a
  missing property and a property of a primitive or an array are \<^verbatim>\<open>undefined\<close>.\<close>

definition msg_name :: "json \<Rightarrow> error + json option" where
  "msg_name m = (case m of JNull \<Rightarrow> Inl TypeError
                 | JObj ps \<Rightarrow> Inr (map_of ps ''name'')
                 | _ \<Rightarrow> Inr None)"

definition msg_data :: "json \<Rightarrow> error + json option" where
  "msg_data m = (case m of JNull \<Rightarrow> Inl TypeError
                 | JObj ps \<Rightarrow> Inr (map_of ps ''data'')
                 | _ \<Rightarrow> Inr None)"

text \<open>\<^verbatim>\<open>const [id, shape] = message.data\<close>: an array gives its first two elements
  (\<^verbatim>\<open>undefined\<close> where it is shorter), a string its first two characters, anything
  else is not iterable.\<close>

definition destructure2 :: "json option \<Rightarrow> error + (json option \<times> json option)" where
  "destructure2 d = (case d of
       Some (JArr xs) \<Rightarrow> Inr (nth_opt xs 0, nth_opt xs 1)
     | Some (JStr s) \<Rightarrow> Inr (map_option (\<lambda>c. JStr [c]) (nth_opt s 0),
                             map_option (\<lambda>c. JStr [c]) (nth_opt s 1))
     | _ \<Rightarrow> Inl TypeError)"

subsection \<open>JavaScript objects between \<^verbatim>\<open>JSON.parse\<close> and \<^verbatim>\<open>JSON.stringify\<close>\<close>

type_synonym jsobject = "(string \<times> json option) list"

definition parse_obj :: "(string \<times> json) list \<Rightarrow> jsobject" where
  "parse_obj ps = map (\<lambda>(k, v). (k, Some v)) ps"

text \<open>\<^verbatim>\<open>JSON.stringify\<close> leaves out a property whose value is \<^verbatim>\<open>undefined\<close>.\<close>

definition stringify_obj :: "jsobject \<Rightarrow> (string \<times> json) list" where
  "stringify_obj ob = concat (map (\<lambda>(k, v). case v of None \<Rightarrow> [] | Some j \<Rightarrow> [(k, j)]) ob)"

text \<open>\<^verbatim>\<open>shapes[k] = shape\<close> and \<^verbatim>\<open>delete shapes[k]\<close>, for the key \<open>k\<close> that the id converts
  to. The key \<^verbatim>\<open>__proto__\<close> is an accessor of \<^verbatim>\<open>Object.prototype\<close>: unless the object has
  an own property of that name (which \<^verbatim>\<open>JSON.parse\<close> creates when the text has one), the
  assignment goes to the setter, which creates no own property, and \<^verbatim>\<open>JSON.stringify\<close>
  writes own properties only.\<close>

definition assign :: "jsobject \<Rightarrow> string \<Rightarrow> json option \<Rightarrow> jsobject" where
  "assign ob k v =
     (if k = ''__proto__'' \<and> map_of ob k = None then ob else AList.update k v ob)"

definition delete_prop :: "jsobject \<Rightarrow> string \<Rightarrow> jsobject" where
  "delete_prop ob k = AList.delete k ob"

subsection \<open>The key-value store and the gateway\<close>

text \<open>
  The four keys the server uses. \<open>None\<close> is an absent key; the list key holds the empty
  list when absent. Values are kept parsed: the server writes \<^verbatim>\<open>JSON.stringify\<close> of a
  value and reads it back with \<^verbatim>\<open>JSON.parse\<close>.
\<close>

record redis =
  k_shapes :: "(string \<times> json) list option"
  k_background :: "json option"
  k_users :: "int option"
  k_eventQueue :: "json list"

datatype payload =
    UpdateUser int
  | SyncState "(string \<times> json) list" json
  | UserEvent json

datatype delivery = ToAll payload | ToUser string payload

text \<open>
  The world a handler runs in: the store, the messages handed to the gateway so far
  (oldest first), and a schedule that says of each coming store or gateway call whether
  it is rejected (\<open>True\<close>); past the end of the schedule every call succeeds.
\<close>

record world =
  store :: redis
  outbox :: "delivery list"
  faults :: "bool list"

type_synonym 'a io = "world \<Rightarrow> (error + 'a) \<times> world"

definition return_io :: "'a \<Rightarrow> 'a io" where
  "return_io a w = (Inr a, w)"

definition throw_io :: "error \<Rightarrow> 'a io" where
  "throw_io e w = (Inl e, w)"

definition bind_io :: "'a io \<Rightarrow> ('a \<Rightarrow> 'b io) \<Rightarrow> 'b io" where
  "bind_io m f w = (case m w of (Inl e, w') \<Rightarrow> (Inl e, w') | (Inr a, w') \<Rightarrow> f a w')"

definition lift_io :: "error + 'a \<Rightarrow> 'a io" where
  "lift_io r w = (r, w)"

text \<open>One awaited call: it consumes one entry of the schedule, and is rejected without
  effect when the entry says so.\<close>

definition next_rejected :: "bool list \<Rightarrow> bool" where
  "next_rejected fs = (case fs of True # _ \<Rightarrow> True | _ \<Rightarrow> False)"

definition call :: "(redis \<Rightarrow> 'a \<times> redis) \<Rightarrow> 'a io" where
  "call f w =
     (if next_rejected (faults w) then (Inl IOError, w\<lparr>faults := tl (faults w)\<rparr>)
      else (Inr (fst (f (store w))), w\<lparr>store := snd (f (store w)), faults := tl (faults w)\<rparr>))"

definition send :: "delivery \<Rightarrow> unit io" where
  "send d w =
     (if next_rejected (faults w) then (Inl IOError, w\<lparr>faults := tl (faults w)\<rparr>)
      else (Inr (), w\<lparr>outbox := outbox w @ [d], faults := tl (faults w)\<rparr>))"

subsection \<open>Redis commands\<close>

text \<open>An index of \<^verbatim>\<open>LRANGE\<close> and \<^verbatim>\<open>LTRIM\<close>: a negative index counts from the end of the
  list; the range is inclusive and is cut to the list.\<close>

definition lrange :: "'a list \<Rightarrow> int \<Rightarrow> int \<Rightarrow> 'a list" where
  "lrange l start stop =
     (let n = int (length l);
          s = max 0 (if start < 0 then n + start else start);
          e = min (n - 1) (if stop < 0 then n + stop else stop)
      in if e < s then [] else take (nat (e - s + 1)) (drop (nat s) l))"

definition redis_lpush_eventQueue :: "json \<Rightarrow> unit io" where
  "redis_lpush_eventQueue v = call (\<lambda>r. ((), r\<lparr>k_eventQueue := v # k_eventQueue r\<rparr>))"

definition redis_ltrim_eventQueue :: "int \<Rightarrow> int \<Rightarrow> unit io" where
  "redis_ltrim_eventQueue start stop =
     call (\<lambda>r. ((), r\<lparr>k_eventQueue := lrange (k_eventQueue r) start stop\<rparr>))"

definition redis_lrange_eventQueue :: "int \<Rightarrow> int \<Rightarrow> json list io" where
  "redis_lrange_eventQueue start stop = call (\<lambda>r. (lrange (k_eventQueue r) start stop, r))"

definition redis_get_shapes :: "(string \<times> json) list option io" where
  "redis_get_shapes = call (\<lambda>r. (k_shapes r, r))"

definition redis_set_shapes :: "(string \<times> json) list \<Rightarrow> unit io" where
  "redis_set_shapes v = call (\<lambda>r. ((), r\<lparr>k_shapes := Some v\<rparr>))"

definition redis_del_shapes :: "unit io" where
  "redis_del_shapes = call (\<lambda>r. ((), r\<lparr>k_shapes := None\<rparr>))"

definition redis_get_background :: "json option io" where
  "redis_get_background = call (\<lambda>r. (k_background r, r))"

definition redis_del_background :: "unit io" where
  "redis_del_background = call (\<lambda>r. ((), r\<lparr>k_background := None\<rparr>))"

text \<open>A command that can reply with an error: the promise is rejected with it and the
  store is left as it was.\<close>

definition command :: "(redis \<Rightarrow> error + 'a \<times> redis) \<Rightarrow> 'a io" where
  "command f w =
     (if next_rejected (faults w) then (Inl IOError, w\<lparr>faults := tl (faults w)\<rparr>)
      else (case f (store w) of
              Inl e \<Rightarrow> (Inl e, w\<lparr>faults := tl (faults w)\<rparr>)
            | Inr (a, r) \<Rightarrow> (Inr a, w\<lparr>store := r, faults := tl (faults w)\<rparr>)))"

text \<open>\<^verbatim>\<open>INCR\<close> and \<^verbatim>\<open>DECR\<close> take an absent key as 0, work on signed 64-bit integers and
  reply with an error when the value or the result is outside that range. The store
  keeps the exact integer; the client hands the reply to the handler as a JavaScript
  number, a double, which is the integer itself up to \<open>2 ^ 53\<close> and the nearest double
  (ties to the even mantissa) beyond.\<close>

definition counter :: "int option \<Rightarrow> int" where
  "counter c = (case c of None \<Rightarrow> 0 | Some n \<Rightarrow> n)"

definition int64 :: "int \<Rightarrow> bool" where
  "int64 n = (- (2 ^ 63) \<le> n \<and> n < 2 ^ 63)"

fun bitlen :: "nat \<Rightarrow> nat" where
  "bitlen n = (if n = 0 then 0 else Suc (bitlen (n div 2)))"

definition round_to_double :: "nat \<Rightarrow> nat" where
  "round_to_double a =
     (let e = bitlen a - 53; q = a div 2 ^ e; r = a mod 2 ^ e
      in (if 2 ^ e < 2 * r \<or> (2 * r = 2 ^ e \<and> odd q) then q + 1 else q) * 2 ^ e)"

definition to_double :: "int \<Rightarrow> int" where
  "to_double n =
     (if \<bar>n\<bar> \<le> 2 ^ 53 then n
      else if n < 0 then - int (round_to_double (nat (- n)))
      else int (round_to_double (nat n)))"

definition redis_incr_users :: "int io" where
  "redis_incr_users =
     command (\<lambda>r. if int64 (counter (k_users r)) \<and> int64 (counter (k_users r) + 1)
                  then Inr (to_double (counter (k_users r) + 1),
                            r\<lparr>k_users := Some (counter (k_users r) + 1)\<rparr>)
                  else Inl ReplyError)"

definition redis_decr_users :: "int io" where
  "redis_decr_users =
     command (\<lambda>r. if int64 (counter (k_users r)) \<and> int64 (counter (k_users r) - 1)
                  then Inr (to_double (counter (k_users r) - 1),
                            r\<lparr>k_users := Some (counter (k_users r) - 1)\<rparr>)
                  else Inl ReplyError)"

text \<open>\<^verbatim>\<open>set("users", n)\<close> writes the decimal digits of the number \<open>n\<close>.\<close>

definition redis_set_users :: "int \<Rightarrow> unit io" where
  "redis_set_users n = call (\<lambda>r. ((), r\<lparr>k_users := Some n\<rparr>))"

text \<open>\<^verbatim>\<open>JSON.parse((await redisClient.get(key)) || "{}")\<close>.\<close>

definition or_empty_object :: "(string \<times> json) list option \<Rightarrow> (string \<times> json) list" where
  "or_empty_object v = (case v of None \<Rightarrow> [] | Some ps \<Rightarrow> ps)"

definition or_empty_json :: "json option \<Rightarrow> json" where
  "or_empty_json v = (case v of None \<Rightarrow> JObj [] | Some j \<Rightarrow> j)"

section \<open>The handlers\<close>

subsection \<open>The version with the event queue\<close>

fun send_each :: "string \<Rightarrow> json list \<Rightarrow> unit io" where
  "send_each userId [] = return_io ()"
| "send_each userId (event # events) =
     bind_io (send (ToUser userId (UserEvent event))) (\<lambda>_. send_each userId events)"

definition replayMissedEvents :: "string \<Rightarrow> unit io" where
  "replayMissedEvents userId =
     bind_io (redis_lrange_eventQueue 0 (- 1)) (\<lambda>events. send_each userId events)"

text \<open>The \<^verbatim>\<open>catch\<close> of \<^verbatim>\<open>onConnected\<close> and \<^verbatim>\<open>onDisconnected\<close> logs the error and returns.\<close>

definition catch_log :: "unit io \<Rightarrow> world \<Rightarrow> world" where
  "catch_log body w = snd (body w)"

definition onConnected_body :: "string \<Rightarrow> unit io" where
  "onConnected_body userId =
     bind_io redis_incr_users (\<lambda>users.
     bind_io (send (ToAll (UpdateUser users))) (\<lambda>_.
     bind_io redis_get_shapes (\<lambda>s.
     bind_io redis_get_background (\<lambda>b.
     bind_io (send (ToUser userId (SyncState (or_empty_object s) (or_empty_json b)))) (\<lambda>_.
     replayMissedEvents userId)))))"

definition onConnected :: "string \<Rightarrow> world \<Rightarrow> world" where
  "onConnected userId = catch_log (onConnected_body userId)"

definition onDisconnected_body :: "unit io" where
  "onDisconnected_body =
     bind_io redis_decr_users (\<lambda>d.
     bind_io (redis_set_users (max 0 d)) (\<lambda>_.
     send (ToAll (UpdateUser (max 0 d)))))"

definition onDisconnected :: "world \<Rightarrow> world" where
  "onDisconnected = catch_log onDisconnected_body"

definition addShape_branch :: "json \<Rightarrow> unit io" where
  "addShape_branch message =
     bind_io (lift_io (msg_data message)) (\<lambda>d.
     bind_io (lift_io (destructure2 d)) (\<lambda>(i, shape).
     bind_io redis_get_shapes (\<lambda>s.
     bind_io (lift_io (propertyKey i)) (\<lambda>k.
     redis_set_shapes (stringify_obj (assign (parse_obj (or_empty_object s)) k shape))))))"

definition removeShape_branch :: "json \<Rightarrow> unit io" where
  "removeShape_branch message =
     bind_io (lift_io (msg_data message)) (\<lambda>i.
     bind_io redis_get_shapes (\<lambda>s.
     bind_io (lift_io (propertyKey i)) (\<lambda>k.
     redis_set_shapes (stringify_obj (delete_prop (parse_obj (or_empty_object s)) k)))))"

definition clear_branch :: "unit io" where
  "clear_branch = bind_io redis_del_shapes (\<lambda>_. redis_del_background)"

text \<open>The \<^verbatim>\<open>if\<close> chain of \<^verbatim>\<open>handleUserEvent\<close> (a \<^verbatim>\<open>switch\<close> in \<^verbatim>\<open>src/server.js\<close>), on
  \<^verbatim>\<open>message.name\<close> compared with \<^verbatim>\<open>===\<close>.\<close>

definition dispatch :: "json \<Rightarrow> unit io" where
  "dispatch message =
     bind_io (lift_io (msg_name message)) (\<lambda>n.
       if n = Some (JStr ''addShape'') then addShape_branch message
       else if n = Some (JStr ''removeShape'') then removeShape_branch message
       else if n = Some (JStr ''clear'') then clear_branch
       else return_io ())"

definition handleUserEvent_body :: "json \<Rightarrow> unit io" where
  "handleUserEvent_body message =
     bind_io (redis_lpush_eventQueue message) (\<lambda>_.
     bind_io (redis_ltrim_eventQueue 0 99) (\<lambda>_.
     bind_io (dispatch message) (\<lambda>_.
     send (ToAll (UserEvent message)))))"

text \<open>\<^verbatim>\<open>try { ...; res.success() } catch (err) { ...; res.fail() }\<close>. The response
  handler's \<^verbatim>\<open>fail(code, detail)\<close> sets the status code of the HTTP response to its first
  argument and ends the response. The \<^verbatim>\<open>catch\<close> block calls it with no argument: ending a
  response whose status code is \<^verbatim>\<open>undefined\<close> throws, so no failure response is written
  there and the error leaves the handler.\<close>

definition try_respond :: "unit io \<Rightarrow> world \<Rightarrow> response \<times> world" where
  "try_respond body w =
     (case body w of (Inl e, w') \<Rightarrow> (Uncaught InvalidStatusCode, w')
                   | (Inr u, w') \<Rightarrow> (Success, w'))"

definition handleUserEvent :: "json \<Rightarrow> world \<Rightarrow> response \<times> world" where
  "handleUserEvent message = try_respond (handleUserEvent_body message)"

subsection \<open>The version of \<^verbatim>\<open>src/server.js\<close>\<close>

text \<open>\<^verbatim>\<open>onConnected\<close> there names a variable \<^verbatim>\<open>userId\<close> that is declared nowhere: evaluating
  the arguments of \<^verbatim>\<open>sendToUser\<close> throws before the call is made.\<close>

definition onConnected_server_body :: "unit io" where
  "onConnected_server_body =
     bind_io redis_incr_users (\<lambda>users.
     bind_io (send (ToAll (UpdateUser users))) (\<lambda>_.
     bind_io redis_get_shapes (\<lambda>s.
     bind_io redis_get_background (\<lambda>b.
     throw_io ReferenceError))))"

definition onConnected_server :: "world \<Rightarrow> world" where
  "onConnected_server = catch_log onConnected_server_body"

definition onDisconnected_server_body :: "unit io" where
  "onDisconnected_server_body =
     bind_io redis_decr_users (\<lambda>d.
     bind_io (if d < 0 then redis_set_users 0 else return_io ()) (\<lambda>_.
     send (ToAll (UpdateUser (if d < 0 then 0 else d)))))"

definition onDisconnected_server :: "world \<Rightarrow> world" where
  "onDisconnected_server = catch_log onDisconnected_server_body"

definition handleUserEvent_server :: "json \<Rightarrow> world \<Rightarrow> response \<times> world" where
  "handleUserEvent_server message = try_respond (dispatch message)"

section \<open>Running the handlers, and the reference model\<close>

text \<open>The state before any event: no key is set, nothing has been sent, no call will be
  rejected.\<close>

definition empty_world :: world where
  "empty_world = \<lparr>store = \<lparr>k_shapes = None, k_background = None, k_users = None,
                              k_eventQueue = []\<rparr>,
                   outbox = [], faults = []\<rparr>"

text \<open>The retained events as the server reads them, \<^verbatim>\<open>lrange(EVENT_QUEUE_KEY, 0, -1)\<close>,
  and the document as it reads it, \<^verbatim>\<open>JSON.parse((await redisClient.get(key)) || "{}")\<close>.\<close>

definition recent :: "world \<Rightarrow> json list" where
  "recent w = lrange (k_eventQueue (store w)) 0 (- 1)"

definition getShapes :: "world \<Rightarrow> (string \<times> json) list" where
  "getShapes w = or_empty_object (k_shapes (store w))"

definition getBackground :: "world \<Rightarrow> json" where
  "getBackground w = or_empty_json (k_background (store w))"

text \<open>User events handled one after the other.\<close>

fun run_events :: "json list \<Rightarrow> world \<Rightarrow> world" where
  "run_events [] w = w"
| "run_events (m # ms) w = run_events ms (snd (handleUserEvent m w))"

fun run_events_server :: "json list \<Rightarrow> world \<Rightarrow> world" where
  "run_events_server [] w = w"
| "run_events_server (m # ms) w = run_events_server ms (snd (handleUserEvent_server m w))"

text \<open>Connections and disconnections handled one after the other.\<close>

datatype presence_op = Connect string | Disconnect

fun presence_step :: "presence_op \<Rightarrow> world \<Rightarrow> world" where
  "presence_step (Connect userId) w = onConnected userId w"
| "presence_step Disconnect w = onDisconnected w"

fun presence_step_server :: "presence_op \<Rightarrow> world \<Rightarrow> world" where
  "presence_step_server (Connect userId) w = onConnected_server w"
| "presence_step_server Disconnect w = onDisconnected_server w"

fun run_presence :: "presence_op list \<Rightarrow> world \<Rightarrow> world" where
  "run_presence [] w = w"
| "run_presence (p # ps) w = run_presence ps (presence_step p w)"

fun run_presence_server :: "presence_op list \<Rightarrow> world \<Rightarrow> world" where
  "run_presence_server [] w = w"
| "run_presence_server (p # ps) w = run_presence_server ps (presence_step_server p w)"

definition users_count :: "world \<Rightarrow> int" where
  "users_count w = counter (k_users (store w))"

text \<open>The three edits of the Document Store with their payloads, and the message a
  client sends for each: \<^verbatim>\<open>{name: "addShape", data: [id, shape]}\<close>,
  \<^verbatim>\<open>{name: "removeShape", data: id}\<close>, \<^verbatim>\<open>{name: "clear"}\<close>.\<close>

datatype edit = AddShape string json | RemoveShape string | Clear

fun encode :: "edit \<Rightarrow> json" where
  "encode (AddShape i shape) = JObj [(''name'', JStr ''addShape''), (''data'', JArr [JStr i, shape])]"
| "encode (RemoveShape i) = JObj [(''name'', JStr ''removeShape''), (''data'', JStr i)]"
| "encode Clear = JObj [(''name'', JStr ''clear'')]"

text \<open>The reference of the specification, in its words: an in-memory map, with insert on
  addShape, delete on removeShape, empty on clear.\<close>

fun reference_apply :: "edit \<Rightarrow> (string \<rightharpoonup> json) \<Rightarrow> (string \<rightharpoonup> json)" where
  "reference_apply (AddShape i shape) m = m(i \<mapsto> shape)"
| "reference_apply (RemoveShape i) m = m(i := None)"
| "reference_apply Clear m = Map.empty"

fun reference_run :: "edit list \<Rightarrow> (string \<rightharpoonup> json) \<Rightarrow> (string \<rightharpoonup> json)" where
  "reference_run [] m = m"
| "reference_run (e # es) m = reference_run es (reference_apply e m)"

text \<open>An edit is ordinary when its id is not the key \<^verbatim>\<open>__proto__\<close>.\<close>

fun ordinary_edit :: "edit \<Rightarrow> bool" where
  "ordinary_edit (AddShape i shape) = (i \<noteq> ''__proto__'')"
| "ordinary_edit (RemoveShape i) = True"
| "ordinary_edit Clear = True"

text \<open>The connects of a sequence minus its disconnects, and the count that a sequence
  leaves when every disconnect stops at zero.\<close>

fun surplus :: "presence_op list \<Rightarrow> int" where
  "surplus [] = 0"
| "surplus (Connect userId # ps) = surplus ps + 1"
| "surplus (Disconnect # ps) = surplus ps - 1"

fun clamped_count :: "int \<Rightarrow> presence_op list \<Rightarrow> int" where
  "clamped_count c [] = c"
| "clamped_count c (Connect userId # ps) = clamped_count (c + 1) ps"
| "clamped_count c (Disconnect # ps) = clamped_count (max 0 (c - 1)) ps"

text \<open>The event names the handlers know.\<close>

definition known_name :: "json option \<Rightarrow> bool" where
  "known_name n = (n = Some (JStr ''addShape'') \<or> n = Some (JStr ''removeShape'')
                   \<or> n = Some (JStr ''clear''))"

text \<open>A world with a shape, a background, two users and one retained event, and two
  messages no handler knows: one with an unknown name, one with no name at all.\<close>

definition sample_world :: world where
  "sample_world =
     \<lparr>store = \<lparr>k_shapes = Some [(''a'', JObj [(''x'', JNum ''1'')])],
               k_background = Some (JObj [(''id'', JStr ''xyz123'')]),
               k_users = Some 2,
               k_eventQueue = [encode (AddShape ''a'' (JObj [(''x'', JNum ''1'')]))]\<rparr>,
      outbox = [], faults = []\<rparr>"

text \<open>An addShape edit whose id is \<^verbatim>\<open>__proto__\<close>, and an interleaving of two connects and
  three disconnects.\<close>

definition proto_edit :: edit where
  "proto_edit = AddShape ''__proto__'' (JObj [(''x'', JNum ''1'')])"

definition hectic_presence :: "presence_op list" where
  "hectic_presence = [Connect ''u'', Disconnect, Connect ''v'', Disconnect, Disconnect]"

definition resize_event :: json where
  "resize_event = JObj [(''name'', JStr ''resize''), (''data'', JNum ''3'')]"

definition nameless_event :: json where
  "nameless_event = JObj [(''data'', JStr ''a'')]"

section \<open>Basic facts\<close>

lemmas io_defs = return_io_def throw_io_def bind_io_def lift_io_def call_def send_def

lemmas redis_defs = redis_lpush_eventQueue_def redis_ltrim_eventQueue_def
  redis_lrange_eventQueue_def redis_get_shapes_def redis_set_shapes_def redis_del_shapes_def
  redis_get_background_def redis_del_background_def redis_incr_users_def redis_decr_users_def
  redis_set_users_def

lemmas handler_defs = handleUserEvent_def handleUserEvent_server_def try_respond_def
  handleUserEvent_body_def dispatch_def addShape_branch_def removeShape_branch_def
  clear_branch_def

lemma next_rejected_Nil [simp]: "next_rejected [] = False"
  by (simp add: next_rejected_def)

lemma lrange_0_99: "lrange l 0 99 = take 100 l"
  by (auto simp: lrange_def Let_def min_def)

lemma lrange_all: "lrange l 0 (- 1) = l"
  by (auto simp: lrange_def Let_def min_def)

subsection \<open>The event queue under \<^verbatim>\<open>handleUserEvent\<close>\<close>

lemma handleUserEvent_faults_nil:
  "faults w = [] \<Longrightarrow> faults (snd (handleUserEvent m w)) = []"
  by (simp add: handler_defs io_defs redis_defs split: sum.splits prod.splits)

lemma handleUserEvent_server_faults_nil:
  "faults w = [] \<Longrightarrow> faults (snd (handleUserEvent_server m w)) = []"
  by (simp add: handler_defs io_defs redis_defs split: sum.splits prod.splits)

lemma handleUserEvent_queue:
  "faults w = [] \<Longrightarrow>
     k_eventQueue (store (snd (handleUserEvent m w))) = take 100 (m # k_eventQueue (store w))"
  by (simp add: handler_defs io_defs redis_defs lrange_0_99 split: sum.splits prod.splits)

lemma handleUserEvent_success_queue:
  "fst (handleUserEvent m w) = Success \<Longrightarrow>
     k_eventQueue (store (snd (handleUserEvent m w))) = take 100 (m # k_eventQueue (store w))"
  by (auto simp add: handler_defs io_defs redis_defs lrange_0_99
      split: sum.splits prod.splits if_splits)

lemma run_events_faults_nil: "faults w = [] \<Longrightarrow> faults (run_events ms w) = []"
  by (induction ms arbitrary: w) (simp_all add: handleUserEvent_faults_nil)

lemma run_events_server_faults_nil: "faults w = [] \<Longrightarrow> faults (run_events_server ms w) = []"
  by (induction ms arbitrary: w) (simp_all add: handleUserEvent_server_faults_nil)

lemma take_append_take: "take n (xs @ take n ys) = take n (xs @ ys)"
  by simp

lemma run_events_queue:
  "faults w = [] \<Longrightarrow>
     k_eventQueue (store (run_events ms w)) =
       (if ms = [] then k_eventQueue (store w) else take 100 (rev ms @ k_eventQueue (store w)))"
proof (induction ms arbitrary: w)
  case Nil
  then show ?case by simp
next
  case (Cons m ms)
  let ?w = "snd (handleUserEvent m w)"
  have q: "k_eventQueue (store ?w) = take 100 (m # k_eventQueue (store w))"
    using Cons.prems by (rule handleUserEvent_queue)
  have "k_eventQueue (store (run_events ms ?w)) = take 100 (rev ms @ m # k_eventQueue (store w))"
  proof (cases "ms = []")
    case True
    then show ?thesis by (simp add: q)
  next
    case False
    then have "k_eventQueue (store (run_events ms ?w)) =
        take 100 (rev ms @ take 100 (m # k_eventQueue (store w)))"
      using Cons.IH [of ?w] Cons.prems by (simp add: handleUserEvent_faults_nil q)
    then show ?thesis
      by (simp only: take_append_take)
  qed
  then show ?case by simp
qed

lemma recent_eq: "recent w = k_eventQueue (store w)"
  by (simp add: recent_def lrange_all)

lemma run_events_recent_empty: "recent (run_events ms empty_world) = take 100 (rev ms)"
  using run_events_queue [of empty_world ms]
  by (simp add: recent_eq empty_world_def)

subsection \<open>The shapes under the three edits\<close>


lemma stringify_parse [simp]: "stringify_obj (parse_obj ps) = ps"
  by (induction ps) (auto simp: stringify_obj_def parse_obj_def)

lemma stringify_Cons: "stringify_obj ((k, Some v) # ob) = (k, v) # stringify_obj ob"
  by (simp add: stringify_obj_def)

lemma parse_Cons: "parse_obj ((k, v) # ps) = (k, Some v) # parse_obj ps"
  by (simp add: parse_obj_def)

lemma parse_Nil: "parse_obj [] = []"
  by (simp add: parse_obj_def)

lemma stringify_Nil: "stringify_obj [] = []"
  by (simp add: stringify_obj_def)

lemma stringify_parse_update:
  "stringify_obj (AList.update k (Some v) (parse_obj ps)) = AList.update k v ps"
  by (induction ps) (auto simp: stringify_Cons stringify_Nil parse_Cons parse_Nil)

lemma stringify_parse_delete:
  "stringify_obj (AList.delete k (parse_obj ps)) = AList.delete k ps"
  by (induction ps) (auto simp: stringify_Cons stringify_Nil parse_Cons parse_Nil)

lemma propertyKey_JStr [simp]: "propertyKey (Some (JStr i)) = Inr i"
  by (simp add: propertyKey_def)

lemma map_of_parse_obj: "(map_of (parse_obj ps) k = None) = (map_of ps k = None)"
  by (induction ps) (auto simp: parse_obj_def)

lemma stringify_assign:
  "stringify_obj (assign (parse_obj ps) k (Some v)) =
     (if k = ''__proto__'' \<and> map_of ps k = None then ps else AList.update k v ps)"
  by (auto simp add: assign_def map_of_parse_obj stringify_parse_update)

lemmas msg_defs = msg_name_def msg_data_def destructure2_def

lemma addShape_step:
  "faults w = [] \<Longrightarrow>
     handleUserEvent (encode (AddShape i shape)) w =
       (Success, w\<lparr>store := (store w)\<lparr>k_eventQueue := take 100 (encode (AddShape i shape) # k_eventQueue (store w)),
                                      k_shapes := Some (if i = ''__proto__'' \<and> map_of (getShapes w) i = None
                                                        then getShapes w
                                                        else AList.update i shape (getShapes w))\<rparr>,
                   outbox := outbox w @ [ToAll (UserEvent (encode (AddShape i shape)))]\<rparr>)"
  by (auto simp add: handler_defs io_defs redis_defs msg_defs lrange_0_99 getShapes_def
      stringify_assign)

lemma removeShape_step:
  "faults w = [] \<Longrightarrow>
     handleUserEvent (encode (RemoveShape i)) w =
       (Success, w\<lparr>store := (store w)\<lparr>k_eventQueue := take 100 (encode (RemoveShape i) # k_eventQueue (store w)),
                                      k_shapes := Some (AList.delete i (getShapes w))\<rparr>,
                   outbox := outbox w @ [ToAll (UserEvent (encode (RemoveShape i)))]\<rparr>)"
  by (simp add: handler_defs io_defs redis_defs msg_defs lrange_0_99 getShapes_def delete_prop_def
      stringify_parse_delete)

lemma clear_step:
  "faults w = [] \<Longrightarrow>
     handleUserEvent (encode Clear) w =
       (Success, w\<lparr>store := (store w)\<lparr>k_eventQueue := take 100 (encode Clear # k_eventQueue (store w)),
                                      k_shapes := None, k_background := None\<rparr>,
                   outbox := outbox w @ [ToAll (UserEvent (encode Clear))]\<rparr>)"
  by (simp add: handler_defs io_defs redis_defs msg_defs lrange_0_99)

lemma addShape_step_server:
  "faults w = [] \<Longrightarrow>
     handleUserEvent_server (encode (AddShape i shape)) w =
       (Success, w\<lparr>store := (store w)\<lparr>k_shapes := Some (if i = ''__proto__'' \<and> map_of (getShapes w) i = None
                                                        then getShapes w
                                                        else AList.update i shape (getShapes w))\<rparr>\<rparr>)"
  by (auto simp add: handler_defs io_defs redis_defs msg_defs getShapes_def stringify_assign)

lemma removeShape_step_server:
  "faults w = [] \<Longrightarrow>
     handleUserEvent_server (encode (RemoveShape i)) w =
       (Success, w\<lparr>store := (store w)\<lparr>k_shapes := Some (AList.delete i (getShapes w))\<rparr>\<rparr>)"
  by (simp add: handler_defs io_defs redis_defs msg_defs getShapes_def delete_prop_def
      stringify_parse_delete)

lemma clear_step_server:
  "faults w = [] \<Longrightarrow>
     handleUserEvent_server (encode Clear) w =
       (Success, w\<lparr>store := (store w)\<lparr>k_shapes := None, k_background := None\<rparr>\<rparr>)"
  by (simp add: handler_defs io_defs redis_defs msg_defs)

lemma edit_step_shapes:
  "faults w = [] \<Longrightarrow> ordinary_edit e \<Longrightarrow>
     map_of (getShapes (snd (handleUserEvent (encode e) w))) = reference_apply e (map_of (getShapes w))"
  by (cases e)
     (simp_all add: addShape_step removeShape_step clear_step getShapes_def or_empty_object_def
        update_conv' delete_conv' del: encode.simps)

lemma edit_step_shapes_server:
  "faults w = [] \<Longrightarrow> ordinary_edit e \<Longrightarrow>
     map_of (getShapes (snd (handleUserEvent_server (encode e) w))) = reference_apply e (map_of (getShapes w))"
  by (cases e)
     (simp_all add: addShape_step_server removeShape_step_server clear_step_server getShapes_def
        or_empty_object_def update_conv' delete_conv' del: encode.simps)

lemma run_events_refines:
  "faults w = [] \<Longrightarrow> list_all ordinary_edit es \<Longrightarrow>
     map_of (getShapes (run_events (map encode es) w)) = reference_run es (map_of (getShapes w))"
proof (induction es arbitrary: w)
  case Nil
  then show ?case by simp
next
  case (Cons e es)
  have "faults (snd (handleUserEvent (encode e) w)) = []"
    using Cons.prems(1) by (rule handleUserEvent_faults_nil)
  from Cons.IH [OF this] show ?case
    using Cons.prems by (simp add: edit_step_shapes del: encode.simps)
qed

lemma run_events_server_refines:
  "faults w = [] \<Longrightarrow> list_all ordinary_edit es \<Longrightarrow>
     map_of (getShapes (run_events_server (map encode es) w)) = reference_run es (map_of (getShapes w))"
proof (induction es arbitrary: w)
  case Nil
  then show ?case by simp
next
  case (Cons e es)
  have "faults (snd (handleUserEvent_server (encode e) w)) = []"
    using Cons.prems(1) by (rule handleUserEvent_server_faults_nil)
  from Cons.IH [OF this] show ?case
    using Cons.prems by (simp add: edit_step_shapes_server del: encode.simps)
qed

lemma delete_absent: "i \<notin> fst ` set al \<Longrightarrow> AList.delete i al = al"
  by (induction al) auto

lemma getShapes_faults [simp]: "getShapes (w\<lparr>faults := fs\<rparr>) = getShapes w"
  by (simp add: getShapes_def)

subsection \<open>Unknown names, frames, failures\<close>

lemma unknown_success_server:
  "msg_name m = Inr n \<Longrightarrow> \<not> known_name n \<Longrightarrow> handleUserEvent_server m w = (Success, w)"
  by (simp add: handler_defs io_defs known_name_def)

lemma unknown_success:
  "msg_name m = Inr n \<Longrightarrow> \<not> known_name n \<Longrightarrow> faults w = [] \<Longrightarrow>
     handleUserEvent m w =
       (Success, w\<lparr>store := (store w)\<lparr>k_eventQueue := take 100 (m # k_eventQueue (store w))\<rparr>,
                   outbox := outbox w @ [ToAll (UserEvent m)]\<rparr>)"
  by (simp add: handler_defs io_defs redis_defs known_name_def lrange_0_99)

lemma unknown_frame:
  "msg_name m = Inr n \<Longrightarrow> \<not> known_name n \<Longrightarrow>
     k_shapes (store (snd (handleUserEvent m w))) = k_shapes (store w)
     \<and> k_background (store (snd (handleUserEvent m w))) = k_background (store w)
     \<and> k_users (store (snd (handleUserEvent m w))) = k_users (store w)"
  by (simp add: handler_defs io_defs redis_defs known_name_def)

lemma background_frame:
  "msg_name m = Inr n \<Longrightarrow> n \<noteq> Some (JStr ''clear'') \<Longrightarrow>
     k_background (store (snd (handleUserEvent m w))) = k_background (store w)
     \<and> k_users (store (snd (handleUserEvent m w))) = k_users (store w)"
  by (auto simp add: handler_defs io_defs redis_defs split: sum.splits prod.splits)

lemma background_frame_server:
  "msg_name m = Inr n \<Longrightarrow> n \<noteq> Some (JStr ''clear'') \<Longrightarrow>
     k_background (store (snd (handleUserEvent_server m w))) = k_background (store w)
     \<and> k_users (store (snd (handleUserEvent_server m w))) = k_users (store w)"
  by (auto simp add: handler_defs io_defs redis_defs split: sum.splits prod.splits)

lemma clear_success:
  "msg_name m = Inr (Some (JStr ''clear'')) \<Longrightarrow> fst (handleUserEvent m w) = Success \<Longrightarrow>
     k_shapes (store (snd (handleUserEvent m w))) = None
     \<and> k_background (store (snd (handleUserEvent m w))) = None"
  by (auto simp add: handler_defs io_defs redis_defs split: sum.splits prod.splits if_splits)

lemma clear_success_server:
  "msg_name m = Inr (Some (JStr ''clear'')) \<Longrightarrow> fst (handleUserEvent_server m w) = Success \<Longrightarrow>
     k_shapes (store (snd (handleUserEvent_server m w))) = None
     \<and> k_background (store (snd (handleUserEvent_server m w))) = None"
  by (auto simp add: handler_defs io_defs redis_defs split: sum.splits prod.splits if_splits)

lemma fail_first_call:
  "next_rejected (faults w) \<Longrightarrow>
     handleUserEvent m w = (Uncaught InvalidStatusCode, w\<lparr>faults := tl (faults w)\<rparr>)"
  by (simp add: handler_defs io_defs redis_defs)

lemma pushed_unless_first_call_rejected:
  "\<not> next_rejected (faults w) \<Longrightarrow>
     k_eventQueue (store (snd (handleUserEvent m w))) = m # k_eventQueue (store w)
     \<or> k_eventQueue (store (snd (handleUserEvent m w))) = take 100 (m # k_eventQueue (store w))"
  by (auto simp add: handler_defs io_defs redis_defs lrange_0_99 split: sum.splits prod.splits if_splits)

lemma clear_completes:
  "msg_name m = Inr (Some (JStr ''clear'')) \<Longrightarrow> faults w = [] \<Longrightarrow>
     fst (handleUserEvent m w) = Success \<and> fst (handleUserEvent_server m w) = Success"
  by (simp add: handler_defs io_defs redis_defs)

subsection \<open>Connections and the presence counter\<close>

lemma call_nofault:
  "faults w = [] \<Longrightarrow> call f w = (Inr (fst (f (store w))), w\<lparr>store := snd (f (store w))\<rparr>)"
  by (simp add: call_def)

lemma send_nofault:
  "faults w = [] \<Longrightarrow> send d w = (Inr (), w\<lparr>outbox := outbox w @ [d]\<rparr>)"
  by (simp add: send_def)

lemma command_nofault:
  "faults w = [] \<Longrightarrow>
     command f w = (case f (store w) of Inl e \<Rightarrow> (Inl e, w)
                    | Inr (a, r) \<Rightarrow> (Inr a, w\<lparr>store := r\<rparr>))"
  by (simp add: command_def split: sum.splits)

lemmas io_nofault = return_io_def throw_io_def bind_io_def lift_io_def call_nofault send_nofault
  command_nofault

lemma send_each_nofault:
  "faults w = [] \<Longrightarrow>
     send_each u es w = (Inr (), w\<lparr>outbox := outbox w @ map (\<lambda>e. ToUser u (UserEvent e)) es\<rparr>)"
proof (induction es arbitrary: w)
  case Nil
  then show ?case by (simp add: return_io_def)
next
  case (Cons e es)
  let ?w = "w\<lparr>outbox := outbox w @ [ToUser u (UserEvent e)]\<rparr>"
  have s: "send (ToUser u (UserEvent e)) w = (Inr (), ?w)"
    using Cons.prems by (simp add: send_def)
  have "faults ?w = []" using Cons.prems by simp
  from Cons.IH [OF this] show ?case
    by (simp add: bind_io_def s)
qed

lemma replay_nofault:
  "faults w = [] \<Longrightarrow>
     replayMissedEvents u w =
       (Inr (), w\<lparr>outbox := outbox w @ map (\<lambda>e. ToUser u (UserEvent e)) (k_eventQueue (store w))\<rparr>)"
proof -
  assume f: "faults w = []"
  have l: "redis_lrange_eventQueue 0 (- 1) w = (Inr (k_eventQueue (store w)), w)"
    using f by (simp add: redis_defs call_def lrange_all)
  show ?thesis
    by (simp add: replayMissedEvents_def bind_io_def l send_each_nofault [OF f])
qed

lemma to_double_exact: "\<bar>n\<bar> \<le> 2 ^ 53 \<Longrightarrow> to_double n = n"
  by (simp add: to_double_def)

lemma to_double_nonneg: "0 \<le> n \<Longrightarrow> 0 \<le> to_double n"
  by (simp add: to_double_def)

lemma onConnected_users:
  "faults w = [] \<Longrightarrow>
     faults (onConnected u w) = []
     \<and> users_count (onConnected u w) =
         (if int64 (users_count w) \<and> int64 (users_count w + 1) then users_count w + 1
          else users_count w)"
proof -
  assume f: "faults w = []"
  let ?c = "users_count w"
  show ?thesis
  proof (cases "int64 ?c \<and> int64 (?c + 1)")
    case True
    let ?w = "w\<lparr>store := (store w)\<lparr>k_users := Some (?c + 1)\<rparr>,
         outbox := outbox w @ [ToAll (UpdateUser (to_double (?c + 1))),
                               ToUser u (SyncState (getShapes w) (getBackground w))]\<rparr>"
    have f': "faults ?w = []" using f by simp
    show ?thesis
      using f True replay_nofault [OF f', of u]
      by (simp add: onConnected_def catch_log_def onConnected_body_def io_nofault redis_defs
          users_count_def getShapes_def getBackground_def counter_def)
  next
    case False
    then show ?thesis
      using f
      by (auto simp add: onConnected_def catch_log_def onConnected_body_def io_nofault redis_defs
          users_count_def)
  qed
qed

lemma onConnected_server_users:
  "faults w = [] \<Longrightarrow>
     faults (onConnected_server w) = []
     \<and> users_count (onConnected_server w) =
         (if int64 (users_count w) \<and> int64 (users_count w + 1) then users_count w + 1
          else users_count w)"
  by (auto simp add: onConnected_server_def catch_log_def onConnected_server_body_def
      io_nofault redis_defs users_count_def counter_def)

lemma onDisconnected_users:
  "faults w = [] \<Longrightarrow>
     faults (onDisconnected w) = []
     \<and> users_count (onDisconnected w) =
         (if int64 (users_count w) \<and> int64 (users_count w - 1)
          then max 0 (to_double (users_count w - 1)) else users_count w)"
  by (auto simp add: onDisconnected_def catch_log_def onDisconnected_body_def
      io_nofault redis_defs users_count_def counter_def)

lemma onDisconnected_server_users:
  "faults w = [] \<Longrightarrow>
     faults (onDisconnected_server w) = []
     \<and> users_count (onDisconnected_server w) =
         (if int64 (users_count w) \<and> int64 (users_count w - 1)
          then (if to_double (users_count w - 1) < 0 then 0 else users_count w - 1)
          else users_count w)"
  by (auto simp add: onDisconnected_server_def catch_log_def onDisconnected_server_body_def
      io_nofault redis_defs users_count_def counter_def)

lemma presence_step_keeps_nonneg:
  "faults w = [] \<Longrightarrow> 0 \<le> users_count w \<Longrightarrow>
     faults (presence_step p w) = [] \<and> 0 \<le> users_count (presence_step p w)"
  by (cases p) (simp_all add: onConnected_users onDisconnected_users)

lemma presence_step_server_keeps_nonneg:
  "faults w = [] \<Longrightarrow> 0 \<le> users_count w \<Longrightarrow>
     faults (presence_step_server p w) = [] \<and> 0 \<le> users_count (presence_step_server p w)"
proof (cases p)
  case (Connect u)
  assume "faults w = []" "0 \<le> users_count w"
  then show ?thesis using Connect by (simp add: onConnected_server_users)
next
  case Disconnect
  assume a: "faults w = []" "0 \<le> users_count w"
  show ?thesis
  proof (cases "users_count w = 0")
    case True
    then show ?thesis
      using a Disconnect by (simp add: onDisconnected_server_users to_double_def)
  next
    case False
    then have "0 \<le> to_double (users_count w - 1)" and "0 < users_count w"
      using a by (simp_all add: to_double_nonneg)
    then show ?thesis
      using a Disconnect by (simp add: onDisconnected_server_users)
  qed
qed

lemma run_presence_nonneg:
  "faults w = [] \<Longrightarrow> 0 \<le> users_count w \<Longrightarrow> 0 \<le> users_count (run_presence ps w)"
proof (induction ps arbitrary: w)
  case Nil
  then show ?case by simp
next
  case (Cons p ps)
  then show ?case
    using presence_step_keeps_nonneg [of w p] by simp
qed

lemma run_presence_server_nonneg:
  "faults w = [] \<Longrightarrow> 0 \<le> users_count w \<Longrightarrow> 0 \<le> users_count (run_presence_server ps w)"
proof (induction ps arbitrary: w)
  case Nil
  then show ?case by simp
next
  case (Cons p ps)
  then show ?case
    using presence_step_server_keeps_nonneg [of w p] by simp
qed

lemma int64_small: "\<bar>n\<bar> \<le> 2 ^ 53 \<Longrightarrow> int64 n"
  unfolding int64_def by (simp add: abs_le_iff)

lemma presence_step_exact:
  "faults w = [] \<Longrightarrow> 0 \<le> users_count w \<Longrightarrow> users_count w < 2 ^ 53 \<Longrightarrow>
     users_count (presence_step p w) = clamped_count (users_count w) [p]"
  by (cases p) (simp_all add: onConnected_users onDisconnected_users int64_small to_double_exact)

lemma presence_step_server_exact:
  "faults w = [] \<Longrightarrow> 0 \<le> users_count w \<Longrightarrow> users_count w < 2 ^ 63 - 1 \<Longrightarrow>
     users_count (presence_step_server p w) = clamped_count (users_count w) [p]"
proof (cases p)
  case (Connect u)
  assume "faults w = []" "0 \<le> users_count w" "users_count w < 2 ^ 63 - 1"
  then show ?thesis
    using Connect by (simp add: onConnected_server_users int64_def)
next
  case Disconnect
  assume a: "faults w = []" "0 \<le> users_count w" "users_count w < 2 ^ 63 - 1"
  then have i: "int64 (users_count w) \<and> int64 (users_count w - 1)"
    by (simp add: int64_def)
  show ?thesis
  proof (cases "users_count w = 0")
    case True
    then show ?thesis
      using a i Disconnect by (simp add: onDisconnected_server_users to_double_def)
  next
    case False
    then have "0 \<le> to_double (users_count w - 1)"
      using a by (intro to_double_nonneg) simp
    then show ?thesis
      using a i False Disconnect by (simp add: onDisconnected_server_users)
  qed
qed

lemma clamped_count_step: "clamped_count c (p # ps) = clamped_count (clamped_count c [p]) ps"
  by (cases p) simp_all

lemma clamped_count_bounds: "0 \<le> c \<Longrightarrow> 0 \<le> clamped_count c [p] \<and> clamped_count c [p] \<le> c + 1"
  by (cases p) simp_all

lemma run_presence_exact:
  "faults w = [] \<Longrightarrow> 0 \<le> users_count w \<Longrightarrow> users_count w + int (length ps) \<le> 2 ^ 53 \<Longrightarrow>
     users_count (run_presence ps w) = clamped_count (users_count w) ps"
proof (induction ps arbitrary: w)
  case Nil
  then show ?case by simp
next
  case (Cons p ps)
  let ?w = "presence_step p w"
  have lt: "users_count w < 2 ^ 53" using Cons.prems by simp
  have e: "users_count ?w = clamped_count (users_count w) [p]"
    using Cons.prems(1,2) lt by (rule presence_step_exact)
  have f: "faults ?w = []"
    using presence_step_keeps_nonneg [OF Cons.prems(1,2), of p] by simp
  have b: "0 \<le> users_count ?w" "users_count ?w + int (length ps) \<le> 2 ^ 53"
    using clamped_count_bounds [OF Cons.prems(2), of p] Cons.prems(3) by (simp_all add: e)
  show ?case
    using Cons.IH [OF f b] by (simp add: e clamped_count_step [of _ p ps])
qed

lemma run_presence_server_exact:
  "faults w = [] \<Longrightarrow> 0 \<le> users_count w \<Longrightarrow> users_count w + int (length ps) < 2 ^ 63 \<Longrightarrow>
     users_count (run_presence_server ps w) = clamped_count (users_count w) ps"
proof (induction ps arbitrary: w)
  case Nil
  then show ?case by simp
next
  case (Cons p ps)
  let ?w = "presence_step_server p w"
  have lt: "users_count w < 2 ^ 63 - 1" using Cons.prems by simp
  have e: "users_count ?w = clamped_count (users_count w) [p]"
    using Cons.prems(1,2) lt by (rule presence_step_server_exact)
  have f: "faults ?w = []"
    using presence_step_server_keeps_nonneg [OF Cons.prems(1,2), of p] by simp
  have b: "0 \<le> users_count ?w" "users_count ?w + int (length ps) < 2 ^ 63"
    using clamped_count_bounds [OF Cons.prems(2), of p] Cons.prems(3) by (simp_all add: e)
  show ?case
    using Cons.IH [OF f b] by (simp add: e clamped_count_step [of _ p ps])
qed

lemma peak_Cons:
  "Max (surplus ` set (suffixes (p # ps))) =
     max (surplus (p # ps)) (Max (surplus ` set (suffixes ps)))"
proof -
  have "set (suffixes ps) \<noteq> {}" by (cases ps) simp_all
  then show ?thesis by (simp add: Max_insert)
qed

lemma peak_ge_surplus: "surplus ps \<le> Max (surplus ` set (suffixes ps))"
  by (rule Max_ge) simp_all

lemma peak_nonneg: "0 \<le> Max (surplus ` set (suffixes ps))"
proof -
  have "surplus [] \<le> Max (surplus ` set (suffixes ps))"
    by (rule Max_ge) (auto simp: image_iff intro: bexI [of _ "[]"])
  then show ?thesis by simp
qed

lemma clamped_count_eq:
  "0 \<le> c \<Longrightarrow> clamped_count c ps = max (c + surplus ps) (Max (surplus ` set (suffixes ps)))"
proof (induction ps arbitrary: c)
  case Nil
  then show ?case by simp
next
  case (Cons p ps)
  define M where "M = Max (surplus ` set (suffixes ps))"
  have P: "Max (surplus ` set (suffixes (p # ps))) = max (surplus (p # ps)) M"
    unfolding M_def by (rule peak_Cons)
  have ge: "surplus ps \<le> M"
    unfolding M_def by (rule peak_ge_surplus)
  show ?case
  proof (cases p)
    case (Connect u)
    have "clamped_count (c + 1) ps = max (c + 1 + surplus ps) M"
      unfolding M_def using Cons.prems by (intro Cons.IH) simp
    then show ?thesis
      unfolding P using Cons.prems Connect ge by (auto simp: max_def)
  next
    case Disconnect
    have "clamped_count (max 0 (c - 1)) ps = max (max 0 (c - 1) + surplus ps) M"
      unfolding M_def by (intro Cons.IH) simp
    then show ?thesis
      unfolding P using Cons.prems Disconnect ge by (auto simp: max_def)
  qed
qed

lemma clamped_count_0: "clamped_count 0 ps = Max (surplus ` set (suffixes ps))"
  using clamped_count_eq [of 0 ps] peak_ge_surplus [of ps] by simp

lemma peak_zero_iff:
  "(Max (surplus ` set (suffixes ps)) = 0) = list_all (\<lambda>qs. surplus qs \<le> 0) (suffixes ps)"
proof -
  have ne: "set (suffixes ps) \<noteq> {}" by (cases ps) simp_all
  have "(Max (surplus ` set (suffixes ps)) \<le> 0) = (\<forall>qs\<in>set (suffixes ps). surplus qs \<le> 0)"
    using ne by (subst Max_le_iff) auto
  moreover have "(Max (surplus ` set (suffixes ps)) = 0) = (Max (surplus ` set (suffixes ps)) \<le> 0)"
    using peak_nonneg [of ps] by linarith
  ultimately show ?thesis
    by (simp only: list_all_iff)
qed

lemma onDisconnected_nofault:
  "faults w = [] \<Longrightarrow> \<bar>users_count w\<bar> < 2 ^ 53 \<Longrightarrow>
     onDisconnected w =
       w\<lparr>store := (store w)\<lparr>k_users := Some (max 0 (users_count w - 1))\<rparr>,
         outbox := outbox w @ [ToAll (UpdateUser (max 0 (users_count w - 1)))]\<rparr>"
proof -
  assume f: "faults w = []" and b: "\<bar>users_count w\<bar> < 2 ^ 53"
  have i: "int64 (users_count w)" "int64 (users_count w - 1)"
    using b by (simp_all add: int64_small)
  have e: "to_double (users_count w - 1) = users_count w - 1"
    using b by (intro to_double_exact) simp
  show ?thesis
    using f i e
    by (simp add: onDisconnected_def catch_log_def onDisconnected_body_def io_nofault redis_defs
        users_count_def)
qed

lemma onDisconnected_server_nofault:
  "faults w = [] \<Longrightarrow> \<bar>users_count w\<bar> < 2 ^ 53 \<Longrightarrow>
     onDisconnected_server w =
       w\<lparr>store := (store w)\<lparr>k_users := Some (max 0 (users_count w - 1))\<rparr>,
         outbox := outbox w @ [ToAll (UpdateUser (max 0 (users_count w - 1)))]\<rparr>"
proof -
  assume f: "faults w = []" and b: "\<bar>users_count w\<bar> < 2 ^ 53"
  have i: "int64 (users_count w)" "int64 (users_count w - 1)"
    using b by (simp_all add: int64_small)
  have e: "to_double (users_count w - 1) = users_count w - 1"
    using b by (intro to_double_exact) simp
  show ?thesis
    using f i e
    by (simp add: onDisconnected_server_def catch_log_def onDisconnected_server_body_def
        io_nofault redis_defs users_count_def max_def)
qed

lemma bitlen_eq: "2 ^ k \<le> n \<Longrightarrow> n < 2 ^ Suc k \<Longrightarrow> bitlen n = Suc k"
proof (induction k arbitrary: n)
  case 0
  then have "n = 1" by simp
  then show ?case by simp
next
  case (Suc k)
  have "2 ^ k \<le> n div 2" "n div 2 < 2 ^ Suc k"
    using Suc.prems by simp_all
  then have "bitlen (n div 2) = Suc k" by (rule Suc.IH)
  moreover have "n \<noteq> 0" using Suc.prems by auto
  ultimately show ?case by (subst bitlen.simps) simp
qed

lemma to_double_stalls: "to_double 9007199254740995 = 9007199254740996"
proof -
  have "bitlen 9007199254740995 = Suc 53"
    by (rule bitlen_eq) simp_all
  then show ?thesis
    by (simp add: to_double_def round_to_double_def Let_def)
qed

lemma run_presence_append: "run_presence (ps @ qs) w = run_presence qs (run_presence ps w)"
  by (induction ps arbitrary: w) simp_all

lemma run_connects:
  "faults w = [] \<Longrightarrow> 0 \<le> users_count w \<Longrightarrow> users_count w + int n < 2 ^ 63 \<Longrightarrow>
     faults (run_presence (replicate n (Connect u)) w) = []
     \<and> users_count (run_presence (replicate n (Connect u)) w) = users_count w + int n"
proof (induction n arbitrary: w)
  case 0
  then show ?case by simp
next
  case (Suc n)
  let ?w = "onConnected u w"
  have i: "int64 (users_count w) \<and> int64 (users_count w + 1)"
    using Suc.prems by (simp add: int64_def)
  have s: "faults ?w = []" "users_count ?w = users_count w + 1"
    using onConnected_users [OF Suc.prems(1), of u] i by simp_all
  have "faults (run_presence (replicate n (Connect u)) ?w) = []
     \<and> users_count (run_presence (replicate n (Connect u)) ?w) = users_count ?w + int n"
    using Suc.prems s by (intro Suc.IH) simp_all
  then show ?case by (simp add: s)
qed

lemma run_disconnects_stall:
  "faults w = [] \<Longrightarrow> users_count w = 9007199254740996 \<Longrightarrow>
     faults (run_presence (replicate n Disconnect) w) = []
     \<and> users_count (run_presence (replicate n Disconnect) w) = 9007199254740996"
proof (induction n arbitrary: w)
  case 0
  then show ?case by simp
next
  case (Suc n)
  let ?w = "onDisconnected w"
  have i: "int64 (users_count w) \<and> int64 (users_count w - 1)"
    using Suc.prems by (simp add: int64_def)
  have s: "faults ?w = []" "users_count ?w = 9007199254740996"
    using onDisconnected_users [OF Suc.prems(1)] i Suc.prems(2)
    by (simp_all add: to_double_stalls)
  from Suc.IH [OF s] show ?case by simp
qed

lemma rounded_count_stalls:
  "users_count (run_presence (replicate 9007199254740996 (Connect u) @ replicate n Disconnect)
      empty_world) = 9007199254740996"
proof -
  have f: "faults empty_world = []" and z: "users_count empty_world = 0"
    by (simp_all add: empty_world_def users_count_def counter_def)
  have c: "faults (run_presence (replicate 9007199254740996 (Connect u)) empty_world) = []
     \<and> users_count (run_presence (replicate 9007199254740996 (Connect u)) empty_world)
         = users_count empty_world + int 9007199254740996"
    by (rule run_connects) (simp_all add: f z)
  show ?thesis
    unfolding run_presence_append
    using run_disconnects_stall [of "run_presence (replicate 9007199254740996 (Connect u)) empty_world" n] c
    by (simp add: z)
qed

text \<open>The definitions a concrete run unfolds.\<close>

lemmas eval_defs = handler_defs io_defs redis_defs msg_defs empty_world_def sample_world_def
  resize_event_def nameless_event_def known_name_def lrange_def recent_def getShapes_def
  getBackground_def or_empty_object_def or_empty_json_def assign_def delete_prop_def
  stringify_obj_def parse_obj_def propertyKey_def users_count_def counter_def
  onConnected_def onDisconnected_def onConnected_server_def onDisconnected_server_def
  catch_log_def onConnected_body_def onDisconnected_body_def onConnected_server_body_def
  onDisconnected_server_body_def replayMissedEvents_def command_def int64_def to_double_def

section \<open>The claims\<close>

text \<open>
  In the statements below a world \<open>w\<lparr>faults := []\<rparr>\<close> is one where no store or gateway call is
  rejected; \<open>empty_world\<close> is such a world. Where a statement is about both versions
  of the server it names both handlers.
\<close>

subsection \<open>C1: is a clear event kept out of the Event Log?\<close>

text \<open>
  The handler pushes every message onto the queue before it looks at the name. Handling
  \<^verbatim>\<open>{name: "clear"}\<close> in the empty world succeeds and leaves exactly that clear event as
  what \<open>recent\<close> returns, against C1.
\<close>

theorem C1_clear_is_logged_counterexample:
  "msg_name (encode Clear) = Inr (Some (JStr ''clear''))
   \<and> fst (handleUserEvent (encode Clear) empty_world) = Success
   \<and> recent (snd (handleUserEvent (encode Clear) empty_world)) = [encode Clear]"
  by (simp add: handler_defs io_defs redis_defs msg_name_def empty_world_def recent_def
      lrange_def)

text \<open>
  C1, as amended: every user event that \<open>handleUserEvent\<close> handles with success, whatever
  its name and so a clear event too, is pushed at the head of the Event Log, which then
  keeps its 100 newest entries; \<open>recent\<close> after a handled clear event has that event
  first.
\<close>

theorem C1_every_event_is_logged:
  "fst (handleUserEvent m w) = Success \<Longrightarrow>
     recent (snd (handleUserEvent m w)) = take 100 (m # recent w)"
  by (simp add: recent_eq handleUserEvent_success_queue)

text \<open>
  The amended C1 at a clear event that follows an addShape event.
\<close>

theorem C1_every_event_is_logged_witness:
  "fst (handleUserEvent (encode Clear)
          (snd (handleUserEvent (encode (AddShape ''a'' JNull)) empty_world))) = Success
   \<and> recent (snd (handleUserEvent (encode Clear)
          (snd (handleUserEvent (encode (AddShape ''a'' JNull)) empty_world))))
       = [encode Clear, encode (AddShape ''a'' JNull)]"
proof -
  let ?w = "snd (handleUserEvent (encode (AddShape ''a'' JNull)) empty_world)"
  have s: "fst (handleUserEvent (encode Clear) ?w) = Success"
    by (simp add: handler_defs io_defs redis_defs msg_name_def msg_data_def destructure2_def
        empty_world_def lrange_def)
  have r: "recent ?w = [encode (AddShape ''a'' JNull)]"
    by (simp add: handler_defs io_defs redis_defs msg_name_def msg_data_def destructure2_def
        empty_world_def lrange_def recent_def)
  show ?thesis
    using C1_every_event_is_logged [OF s, unfolded r] s by simp
qed

subsection \<open>C2: the order of the replay\<close>

text \<open>
  C2 asks for a replay in the order in which the events were applied, and the source
  announces the replay as what brings the joining user up to date. The code at the events
  addShape of \<^verbatim>\<open>"a"\<close>, then removeShape of \<^verbatim>\<open>"a"\<close>: the store holds no shape, the log
  returns the removeShape first, and a user who connects is sent the count, the empty
  snapshot, then the removeShape and only then the addShape. The replay runs newest
  first, since the events are pushed at the head of the list and the list is read from
  its head without being reversed.
\<close>

theorem C2_replay_newest_first_after_add_then_remove:
  "getShapes (run_events [encode (AddShape ''a'' JNull), encode (RemoveShape ''a'')] empty_world)
     = []
   \<and> recent (run_events [encode (AddShape ''a'' JNull), encode (RemoveShape ''a'')] empty_world)
     = [encode (RemoveShape ''a''), encode (AddShape ''a'' JNull)]
   \<and> outbox (onConnected ''u''
      ((run_events [encode (AddShape ''a'' JNull), encode (RemoveShape ''a'')] empty_world)
         \<lparr>outbox := []\<rparr>))
     = [ToAll (UpdateUser 1), ToUser ''u'' (SyncState [] (JObj [])),
        ToUser ''u'' (UserEvent (encode (RemoveShape ''a''))),
        ToUser ''u'' (UserEvent (encode (AddShape ''a'' JNull)))]"
  by (simp add: eval_defs)

subsection \<open>C3: the Event Log is bounded\<close>

text \<open>
  C3: each append (the push and the trim of \<open>handleUserEvent\<close>, both completed) puts the
  new event at the head and keeps the 100 newest entries, so the retained length never
  exceeds 100. After any sequence \<open>ms\<close> of events handled from the empty log, \<open>recent\<close> is
  the last 100 of them, newest first; read from its end it is the last 100 events of \<open>ms\<close>
  in the order they were handled. With 150 events that is \<open>drop 50 ms\<close>.
\<close>

theorem C3_event_log_bounded:
  "length (recent (snd (handleUserEvent m (w\<lparr>faults := []\<rparr>)))) \<le> 100
   \<and> recent (snd (handleUserEvent m (w\<lparr>faults := []\<rparr>))) = take 100 (m # recent w)
   \<and> length (recent (run_events ms empty_world)) \<le> 100
   \<and> recent (run_events ms empty_world) = take 100 (rev ms)
   \<and> rev (recent (run_events ms empty_world)) = drop (length ms - 100) ms"
proof -
  have 1: "recent (snd (handleUserEvent m (w\<lparr>faults := []\<rparr>))) = take 100 (m # recent w)"
    using handleUserEvent_queue [of "w\<lparr>faults := []\<rparr>" m] by (simp add: recent_eq)
  have 2: "recent (run_events ms empty_world) = take 100 (rev ms)"
    by (rule run_events_recent_empty)
  have 3: "rev (take 100 (rev ms)) = drop (length ms - 100) ms"
    by (simp add: rev_take)
  show ?thesis
    by (simp only: 1 2 3) simp
qed

subsection \<open>C4: the Presence Counter\<close>

text \<open>
  One connect and two disconnects, the disconnects first: each disconnect clamps at 0,
  and the connect that follows counts, so the counter ends at 1, where C4 says 0 for every
  interleaving with more disconnects than connects. And in the version with the event
  queue, which writes back the count it was handed as a double: after \<open>2 ^ 53 + 4\<close>
  connects a disconnect decrements the stored count to \<open>2 ^ 53 + 3\<close>, is handed the
  nearest double \<open>2 ^ 53 + 4\<close> and stores that, so no number of disconnects brings the
  counter down.
\<close>

theorem C4_late_connect_or_rounded_count_counterexample:
  "users_count (run_presence [Disconnect, Disconnect, Connect ''u''] empty_world) = 1
   \<and> users_count (run_presence_server [Disconnect, Disconnect, Connect ''u''] empty_world) = 1
   \<and> users_count (run_presence
        (replicate 9007199254740996 (Connect ''u'') @ replicate 9007199254740997 Disconnect)
        empty_world) = 9007199254740996"
proof -
  have "users_count (run_presence [Disconnect, Disconnect, Connect ''u''] empty_world) = 1"
    "users_count (run_presence_server [Disconnect, Disconnect, Connect ''u''] empty_world) = 1"
    by (simp_all add: eval_defs)
  then show ?thesis
    using rounded_count_stalls [of "''u''" 9007199254740997] by simp
qed

text \<open>
  C4, as amended. The Presence Counter is never negative after any sequence of connects
  and disconnects from 0. After an interleaving \<open>ps\<close> of at most \<open>2 ^ 53\<close> operations
  (fewer than \<open>2 ^ 63\<close> for \<^verbatim>\<open>src/server.js\<close>, which does not write the count back) the
  counter is the largest surplus of connects over disconnects among the suffixes of
  \<open>ps\<close>; so it is 0 exactly when no suffix of \<open>ps\<close> has more connects than
  disconnects. Each disconnect, from a count below \<open>2 ^ 53\<close> in absolute value, broadcasts
  the count clamped at zero, \<open>max 0 (count - 1)\<close>, and the store then holds that same
  value: a count that went below zero is corrected to 0. Both versions of the server.
\<close>

theorem C4_presence_counter_never_negative:
  "int (length ps) \<le> 2 ^ 53 \<Longrightarrow> int (length ss) < 2 ^ 63 \<Longrightarrow> \<bar>users_count w\<bar> < 2 ^ 53 \<Longrightarrow>
     0 \<le> users_count (run_presence ops empty_world)
   \<and> 0 \<le> users_count (run_presence_server ops empty_world)
   \<and> users_count (run_presence ps empty_world) = Max (surplus ` set (suffixes ps))
   \<and> (users_count (run_presence ps empty_world) = 0)
       = list_all (\<lambda>qs. surplus qs \<le> 0) (suffixes ps)
   \<and> users_count (run_presence_server ss empty_world) = Max (surplus ` set (suffixes ss))
   \<and> (users_count (run_presence_server ss empty_world) = 0)
       = list_all (\<lambda>qs. surplus qs \<le> 0) (suffixes ss)
   \<and> k_users (store (onDisconnected (w\<lparr>faults := []\<rparr>))) = Some (max 0 (users_count w - 1))
   \<and> outbox (onDisconnected (w\<lparr>faults := []\<rparr>)) =
       outbox w @ [ToAll (UpdateUser (max 0 (users_count w - 1)))]
   \<and> k_users (store (onDisconnected_server (w\<lparr>faults := []\<rparr>))) = Some (max 0 (users_count w - 1))
   \<and> outbox (onDisconnected_server (w\<lparr>faults := []\<rparr>)) =
       outbox w @ [ToAll (UpdateUser (max 0 (users_count w - 1)))]"
proof -
  assume lp: "int (length ps) \<le> 2 ^ 53" and ls: "int (length ss) < 2 ^ 63"
    and b: "\<bar>users_count w\<bar> < 2 ^ 53"
  have f: "faults empty_world = []" and z: "users_count empty_world = 0"
    by (simp_all add: empty_world_def users_count_def counter_def)
  have 1: "0 \<le> users_count (run_presence ops empty_world)"
    by (rule run_presence_nonneg) (simp_all add: f z)
  have 2: "0 \<le> users_count (run_presence_server ops empty_world)"
    by (rule run_presence_server_nonneg) (simp_all add: f z)
  have 3: "users_count (run_presence ps empty_world) = Max (surplus ` set (suffixes ps))"
    using run_presence_exact [OF f, of ps] lp by (simp add: z clamped_count_0)
  have 4: "users_count (run_presence_server ss empty_world) = Max (surplus ` set (suffixes ss))"
    using run_presence_server_exact [OF f, of ss] ls by (simp add: z clamped_count_0)
  let ?w = "w\<lparr>faults := []\<rparr>"
  have b': "faults ?w = []" "\<bar>users_count ?w\<bar> < 2 ^ 53"
    using b by (simp_all add: users_count_def)
  have 5: "k_users (store (onDisconnected ?w)) = Some (max 0 (users_count w - 1))"
    "outbox (onDisconnected ?w) = outbox w @ [ToAll (UpdateUser (max 0 (users_count w - 1)))]"
    using onDisconnected_nofault [OF b'] by (simp_all add: users_count_def)
  have 6: "k_users (store (onDisconnected_server ?w)) = Some (max 0 (users_count w - 1))"
    "outbox (onDisconnected_server ?w) = outbox w @ [ToAll (UpdateUser (max 0 (users_count w - 1)))]"
    using onDisconnected_server_nofault [OF b'] by (simp_all add: users_count_def)
  show ?thesis
    unfolding 3 4 peak_zero_iff using 1 2 5 6 by simp
qed

text \<open>
  The amended C4 at connect, disconnect, connect, disconnect, disconnect, which ends at
  0, and at a disconnect from a count of 2.
\<close>

theorem C4_presence_counter_never_negative_witness:
  "int (length hectic_presence) \<le> 2 ^ 53 \<and> int (length hectic_presence) < 2 ^ 63
   \<and> \<bar>users_count sample_world\<bar> < 2 ^ 53
   \<and> list_all (\<lambda>qs. surplus qs \<le> 0) (suffixes hectic_presence)
   \<and> users_count (run_presence hectic_presence empty_world) = 0
   \<and> users_count (run_presence_server hectic_presence empty_world) = 0
   \<and> users_count sample_world = 2
   \<and> k_users (store (onDisconnected sample_world)) = Some 1
   \<and> k_users (store (onDisconnected_server sample_world)) = Some 1"
proof -
  have l: "int (length hectic_presence) \<le> 2 ^ 53" "int (length hectic_presence) < 2 ^ 63"
    by (simp_all add: hectic_presence_def)
  have u: "users_count sample_world = 2"
    by (simp add: sample_world_def users_count_def counter_def)
  have b: "\<bar>users_count sample_world\<bar> < 2 ^ 53"
    by (simp add: u)
  have a: "list_all (\<lambda>qs. surplus qs \<le> 0) (suffixes hectic_presence)"
    by (simp add: hectic_presence_def)
  have s: "sample_world\<lparr>faults := []\<rparr> = sample_world"
    by (simp add: sample_world_def)
  show ?thesis
    using C4_presence_counter_never_negative [OF l b, of "[]"] l b a u
    unfolding s by simp
qed

subsection \<open>C5: the Document Store against a reference map\<close>

text \<open>
  C5 says that the shapes of the store are those of a reference map after every sequence
  of edits. The code at the single event addShape of \<^verbatim>\<open>"__proto__"\<close> with \<^verbatim>\<open>{x: 1}\<close>, from
  the empty store: both versions answer with success and store no shape, where the
  reference map holds the shape under that id. For sequences of edits whose addShape ids
  are other keys the store does follow the reference map (\<open>run_events_refines\<close>,
  \<open>run_events_server_refines\<close>).
\<close>

theorem C5_proto_id_is_not_stored:
  "fst (handleUserEvent (encode proto_edit) empty_world) = Success
   \<and> getShapes (run_events [encode proto_edit] empty_world) = []
   \<and> fst (handleUserEvent_server (encode proto_edit) empty_world) = Success
   \<and> getShapes (run_events_server [encode proto_edit] empty_world) = []
   \<and> reference_run [proto_edit] Map.empty ''__proto__'' = Some (JObj [(''x'', JNum ''1'')])"
  by (simp add: eval_defs proto_edit_def)

subsection \<open>C6: events with an unknown name\<close>

text \<open>
  An event named \<^verbatim>\<open>resize\<close> is answered with \<^verbatim>\<open>res.success()\<close> by both versions; the
  version with the event queue also logs and broadcasts it. C6 says it is rejected.
\<close>

theorem C6_unknown_name_acknowledged_counterexample:
  "msg_name resize_event = Inr (Some (JStr ''resize''))
   \<and> \<not> known_name (Some (JStr ''resize''))
   \<and> fst (handleUserEvent resize_event sample_world) = Success
   \<and> fst (handleUserEvent_server resize_event sample_world) = Success
   \<and> recent (snd (handleUserEvent resize_event sample_world)) = resize_event # recent sample_world
   \<and> outbox (snd (handleUserEvent resize_event sample_world)) = [ToAll (UserEvent resize_event)]"
  by (simp add: eval_defs)

text \<open>
  C6, as amended: an incoming user event whose name is none of addShape, removeShape and
  clear is not applied to the Document Store (shapes and background stay as they are),
  and it is not rejected either: when no call is rejected the sender gets the success
  acknowledgment, and the version with the event queue appends the event to the log and
  broadcasts it to all.
\<close>

theorem C6_unknown_name_not_applied_not_rejected:
  "msg_name m = Inr n \<Longrightarrow> \<not> known_name n \<Longrightarrow>
     handleUserEvent_server m w = (Success, w)
     \<and> k_shapes (store (snd (handleUserEvent m w))) = k_shapes (store w)
     \<and> k_background (store (snd (handleUserEvent m w))) = k_background (store w)
     \<and> (faults w = [] \<longrightarrow>
          fst (handleUserEvent m w) = Success
          \<and> recent (snd (handleUserEvent m w)) = take 100 (m # recent w)
          \<and> outbox (snd (handleUserEvent m w)) = outbox w @ [ToAll (UserEvent m)])"
proof -
  assume n: "msg_name m = Inr n" "\<not> known_name n"
  have "faults w = [] \<Longrightarrow>
          fst (handleUserEvent m w) = Success
          \<and> recent (snd (handleUserEvent m w)) = take 100 (m # recent w)
          \<and> outbox (snd (handleUserEvent m w)) = outbox w @ [ToAll (UserEvent m)]"
    using unknown_success [OF n, of w] by (simp add: recent_eq)
  then show ?thesis
    using unknown_success_server [OF n, of w] unknown_frame [OF n, of w] by blast
qed

text \<open>
  The amended C6 at an event that has no name.
\<close>

theorem C6_unknown_name_not_applied_not_rejected_witness:
  "msg_name nameless_event = Inr None \<and> \<not> known_name None \<and> faults sample_world = []
   \<and> handleUserEvent_server nameless_event sample_world = (Success, sample_world)
   \<and> fst (handleUserEvent nameless_event sample_world) = Success
   \<and> k_shapes (store (snd (handleUserEvent nameless_event sample_world)))
       = Some [(''a'', JObj [(''x'', JNum ''1'')])]
   \<and> k_background (store (snd (handleUserEvent nameless_event sample_world)))
       = Some (JObj [(''id'', JStr ''xyz123'')])
   \<and> recent (snd (handleUserEvent nameless_event sample_world))
       = [nameless_event, encode (AddShape ''a'' (JObj [(''x'', JNum ''1'')]))]
   \<and> outbox (snd (handleUserEvent nameless_event sample_world))
       = [ToAll (UserEvent nameless_event)]"
proof -
  have n: "msg_name nameless_event = Inr None" "\<not> known_name None"
    by (simp_all add: nameless_event_def msg_name_def known_name_def)
  have f: "faults sample_world = []"
    by (simp add: sample_world_def)
  have s: "k_shapes (store sample_world) = Some [(''a'', JObj [(''x'', JNum ''1'')])]"
    "k_background (store sample_world) = Some (JObj [(''id'', JStr ''xyz123'')])"
    "recent sample_world = [encode (AddShape ''a'' (JObj [(''x'', JNum ''1'')]))]"
    "outbox sample_world = []"
    by (simp_all add: sample_world_def recent_eq)
  show ?thesis
    using C6_unknown_name_not_applied_not_rejected [OF n, of sample_world] n f
    unfolding s by simp
qed

subsection \<open>C7: a failing edit\<close>

text \<open>
  An addShape whose broadcast is rejected (the fifth call: push, trim, get, set, send):
  the processing fails, and yet the shape is in the store and the event is in the log.
  C7 says the state is left as it was.
\<close>

theorem C7_partial_application_counterexample:
  "fst (handleUserEvent_body (encode (AddShape ''b'' JNull))
          (sample_world\<lparr>faults := [False, False, False, False, True]\<rparr>)) = Inl IOError
   \<and> k_shapes (store (snd (handleUserEvent (encode (AddShape ''b'' JNull))
          (sample_world\<lparr>faults := [False, False, False, False, True]\<rparr>))))
       = Some [(''a'', JObj [(''x'', JNum ''1'')]), (''b'', JNull)]
   \<and> k_shapes (store sample_world) = Some [(''a'', JObj [(''x'', JNum ''1'')])]
   \<and> k_eventQueue (store (snd (handleUserEvent (encode (AddShape ''b'' JNull))
          (sample_world\<lparr>faults := [False, False, False, False, True]\<rparr>))))
       = encode (AddShape ''b'' JNull) # k_eventQueue (store sample_world)"
  by (simp add: eval_defs next_rejected_def)

text \<open>
  C7, as amended: for every user edit event whose processing fails, the shared state is
  left as it was when the failing operation is the first one, the push onto the Event
  Log; after any later failure the event has already been pushed at the head of the Event
  Log (trimmed to 100 entries or not yet trimmed): nothing is rolled back.
\<close>

theorem C7_no_rollback_after_failure:
  "fst (handleUserEvent_body m w) = Inl e \<Longrightarrow>
     (if next_rejected (faults w)
      then store (snd (handleUserEvent m w)) = store w
           \<and> outbox (snd (handleUserEvent m w)) = outbox w
      else k_eventQueue (store (snd (handleUserEvent m w))) = m # k_eventQueue (store w)
           \<or> k_eventQueue (store (snd (handleUserEvent m w))) =
                take 100 (m # k_eventQueue (store w)))"
proof (cases "next_rejected (faults w)")
  case True
  then show ?thesis
    by (simp add: fail_first_call)
next
  case False
  then show ?thesis
    using pushed_unless_first_call_rejected [OF False, of m] by simp
qed

text \<open>
  The amended C7 at a clear event whose first call is rejected, and at an addShape event
  whose data is a number, which cannot be destructured.
\<close>

theorem C7_no_rollback_after_failure_witness:
  "fst (handleUserEvent_body (encode Clear) (sample_world\<lparr>faults := [True]\<rparr>)) = Inl IOError
   \<and> store (snd (handleUserEvent (encode Clear) (sample_world\<lparr>faults := [True]\<rparr>)))
       = store sample_world
   \<and> outbox (snd (handleUserEvent (encode Clear) (sample_world\<lparr>faults := [True]\<rparr>)))
       = outbox sample_world
   \<and> fst (handleUserEvent_body (JObj [(''name'', JStr ''addShape''), (''data'', JNum ''7'')])
          sample_world) = Inl TypeError
   \<and> k_eventQueue (store (snd (handleUserEvent
          (JObj [(''name'', JStr ''addShape''), (''data'', JNum ''7'')]) sample_world)))
       = [JObj [(''name'', JStr ''addShape''), (''data'', JNum ''7'')],
          encode (AddShape ''a'' (JObj [(''x'', JNum ''1'')]))]"
proof -
  let ?w = "sample_world\<lparr>faults := [True]\<rparr>"
  let ?m = "JObj [(''name'', JStr ''addShape''), (''data'', JNum ''7'')]"
  have a: "fst (handleUserEvent_body (encode Clear) ?w) = Inl IOError"
    by (simp add: eval_defs next_rejected_def)
  have b: "fst (handleUserEvent_body ?m sample_world) = Inl TypeError"
    by (simp add: eval_defs next_rejected_def)
  have r: "next_rejected (faults ?w)" "\<not> next_rejected (faults sample_world)"
    by (simp_all add: sample_world_def next_rejected_def)
  have q: "k_eventQueue (store (snd (handleUserEvent ?m sample_world))) =
      [?m, encode (AddShape ''a'' (JObj [(''x'', JNum ''1'')]))]"
    by (simp add: eval_defs next_rejected_def)
  have s: "store ?w = store sample_world" "outbox ?w = outbox sample_world"
    by simp_all
  show ?thesis
    using C7_no_rollback_after_failure [OF a] C7_no_rollback_after_failure [OF b]
      a b r q s by simp
qed

subsection \<open>C8: clear empties shapes and background\<close>

text \<open>
  C8: from every state of the Document Store, when the handling of a clear event
  completes (the sender gets the success acknowledgment), both the shapes key and the
  background key are absent, so that the shapes mapping and the background read empty;
  and it does complete when no call is rejected. Both versions of \<open>handleUserEvent\<close>.
\<close>

theorem C8_clear_empties_shapes_and_background:
  "msg_name m = Inr (Some (JStr ''clear'')) \<Longrightarrow>
     (fst (handleUserEvent m w) = Success \<longrightarrow>
        k_shapes (store (snd (handleUserEvent m w))) = None
        \<and> k_background (store (snd (handleUserEvent m w))) = None
        \<and> getShapes (snd (handleUserEvent m w)) = []
        \<and> getBackground (snd (handleUserEvent m w)) = JObj [])
     \<and> (fst (handleUserEvent_server m w) = Success \<longrightarrow>
        k_shapes (store (snd (handleUserEvent_server m w))) = None
        \<and> k_background (store (snd (handleUserEvent_server m w))) = None
        \<and> getShapes (snd (handleUserEvent_server m w)) = []
        \<and> getBackground (snd (handleUserEvent_server m w)) = JObj [])
     \<and> (faults w = [] \<longrightarrow>
        fst (handleUserEvent m w) = Success \<and> fst (handleUserEvent_server m w) = Success)"
proof -
  assume c: "msg_name m = Inr (Some (JStr ''clear''))"
  have 1: "fst (handleUserEvent m w) = Success \<Longrightarrow>
        k_shapes (store (snd (handleUserEvent m w))) = None
        \<and> k_background (store (snd (handleUserEvent m w))) = None
        \<and> getShapes (snd (handleUserEvent m w)) = []
        \<and> getBackground (snd (handleUserEvent m w)) = JObj []"
    using clear_success [OF c, of w]
    by (simp add: getShapes_def getBackground_def or_empty_object_def or_empty_json_def)
  have 2: "fst (handleUserEvent_server m w) = Success \<Longrightarrow>
        k_shapes (store (snd (handleUserEvent_server m w))) = None
        \<and> k_background (store (snd (handleUserEvent_server m w))) = None
        \<and> getShapes (snd (handleUserEvent_server m w)) = []
        \<and> getBackground (snd (handleUserEvent_server m w)) = JObj []"
    using clear_success_server [OF c, of w]
    by (simp add: getShapes_def getBackground_def or_empty_object_def or_empty_json_def)
  show ?thesis
    using 1 2 clear_completes [OF c, of w] by blast
qed

text \<open>
  C8 at a store that holds a shape and a background.
\<close>

theorem C8_clear_empties_shapes_and_background_witness:
  "msg_name (encode Clear) = Inr (Some (JStr ''clear'')) \<and> faults sample_world = []
   \<and> k_shapes (store sample_world) = Some [(''a'', JObj [(''x'', JNum ''1'')])]
   \<and> k_background (store sample_world) = Some (JObj [(''id'', JStr ''xyz123'')])
   \<and> fst (handleUserEvent (encode Clear) sample_world) = Success
   \<and> k_shapes (store (snd (handleUserEvent (encode Clear) sample_world))) = None
   \<and> k_background (store (snd (handleUserEvent (encode Clear) sample_world))) = None
   \<and> fst (handleUserEvent_server (encode Clear) sample_world) = Success
   \<and> k_shapes (store (snd (handleUserEvent_server (encode Clear) sample_world))) = None
   \<and> k_background (store (snd (handleUserEvent_server (encode Clear) sample_world))) = None"
proof -
  have c: "msg_name (encode Clear) = Inr (Some (JStr ''clear''))"
    by (simp add: msg_name_def)
  have f: "faults sample_world = []"
    and s: "k_shapes (store sample_world) = Some [(''a'', JObj [(''x'', JNum ''1'')])]"
    and b: "k_background (store sample_world) = Some (JObj [(''id'', JStr ''xyz123'')])"
    by (simp_all add: sample_world_def)
  show ?thesis
    using C8_clear_empties_shapes_and_background [OF c, of sample_world] c f s b by blast
qed

subsection \<open>C9: removing a shape\<close>

text \<open>
  C9: handling removeShape for an id succeeds whether or not the id is present; the shapes
  are the former ones without the id when it was present and exactly the former ones when
  it was absent, and the background is untouched. From the empty store, addShape of
  \<^verbatim>\<open>"a"\<close> with \<^verbatim>\<open>{x: 1}\<close> followed by removeShape of \<^verbatim>\<open>"a"\<close> leaves an empty shapes
  mapping and the background as it was. Both versions of \<open>handleUserEvent\<close>.
\<close>

theorem C9_removeShape_deletes_or_is_noop:
  "fst (handleUserEvent (encode (RemoveShape i)) (w\<lparr>faults := []\<rparr>)) = Success
   \<and> getShapes (snd (handleUserEvent (encode (RemoveShape i)) (w\<lparr>faults := []\<rparr>))) =
       (if i \<in> fst ` set (getShapes w) then AList.delete i (getShapes w) else getShapes w)
   \<and> map_of (getShapes (snd (handleUserEvent (encode (RemoveShape i)) (w\<lparr>faults := []\<rparr>)))) i = None
   \<and> k_background (store (snd (handleUserEvent (encode (RemoveShape i)) (w\<lparr>faults := []\<rparr>)))) = k_background (store w)
   \<and> fst (handleUserEvent_server (encode (RemoveShape i)) (w\<lparr>faults := []\<rparr>)) = Success
   \<and> getShapes (snd (handleUserEvent_server (encode (RemoveShape i)) (w\<lparr>faults := []\<rparr>))) =
       (if i \<in> fst ` set (getShapes w) then AList.delete i (getShapes w) else getShapes w)
   \<and> map_of (getShapes (snd (handleUserEvent_server (encode (RemoveShape i)) (w\<lparr>faults := []\<rparr>)))) i = None
   \<and> k_background (store (snd (handleUserEvent_server (encode (RemoveShape i)) (w\<lparr>faults := []\<rparr>)))) = k_background (store w)
   \<and> getShapes (run_events [encode (AddShape ''a'' (JObj [(''x'', JNum ''1'')])),
                             encode (RemoveShape ''a'')] empty_world) = []
   \<and> k_background (store (run_events [encode (AddShape ''a'' (JObj [(''x'', JNum ''1'')])),
                             encode (RemoveShape ''a'')] empty_world)) = k_background (store empty_world)
   \<and> getShapes (run_events_server [encode (AddShape ''a'' (JObj [(''x'', JNum ''1'')])),
                             encode (RemoveShape ''a'')] empty_world) = []
   \<and> k_background (store (run_events_server [encode (AddShape ''a'' (JObj [(''x'', JNum ''1'')])),
                             encode (RemoveShape ''a'')] empty_world)) = k_background (store empty_world)"
proof -
  let ?w = "w\<lparr>faults := []\<rparr>"
  have f: "faults ?w = []" by simp
  have a: "handleUserEvent (encode (RemoveShape i)) ?w =
      (Success, ?w\<lparr>store := (store ?w)\<lparr>k_eventQueue :=
                      take 100 (encode (RemoveShape i) # k_eventQueue (store ?w)),
                    k_shapes := Some (AList.delete i (getShapes ?w))\<rparr>,
                  outbox := outbox ?w @ [ToAll (UserEvent (encode (RemoveShape i)))]\<rparr>)"
    using f by (rule removeShape_step)
  have b: "handleUserEvent_server (encode (RemoveShape i)) ?w =
      (Success, ?w\<lparr>store := (store ?w)\<lparr>k_shapes := Some (AList.delete i (getShapes ?w))\<rparr>\<rparr>)"
    using f by (rule removeShape_step_server)
  have d: "(if i \<in> fst ` set al then AList.delete i al else al) = AList.delete i al" for al :: "(string \<times> json) list"
    by (simp add: delete_absent)
  have k: "map_of (AList.delete i al) i = None" for al :: "(string \<times> json) list"
    by (simp add: delete_conv')
  have e1: "getShapes (run_events [encode (AddShape ''a'' (JObj [(''x'', JNum ''1'')])),
                             encode (RemoveShape ''a'')] empty_world) = []"
    "k_background (store (run_events [encode (AddShape ''a'' (JObj [(''x'', JNum ''1'')])),
                             encode (RemoveShape ''a'')] empty_world)) = k_background (store empty_world)"
    by (simp_all add: handler_defs io_defs redis_defs msg_defs empty_world_def getShapes_def
        getBackground_def or_empty_object_def lrange_def assign_def delete_prop_def
        stringify_obj_def parse_obj_def propertyKey_def)
  have e2: "getShapes (run_events_server [encode (AddShape ''a'' (JObj [(''x'', JNum ''1'')])),
                             encode (RemoveShape ''a'')] empty_world) = []"
    "k_background (store (run_events_server [encode (AddShape ''a'' (JObj [(''x'', JNum ''1'')])),
                             encode (RemoveShape ''a'')] empty_world)) = k_background (store empty_world)"
    by (simp_all add: handler_defs io_defs redis_defs msg_defs empty_world_def getShapes_def
        getBackground_def or_empty_object_def assign_def delete_prop_def
        stringify_obj_def parse_obj_def propertyKey_def)
  show ?thesis
    unfolding a b d e1 e2
    by (simp add: getShapes_def getBackground_def or_empty_object_def k)
qed

subsection \<open>C10: what handling an event leaves alone\<close>

text \<open>
  C10: handling an event whose name is none of addShape, removeShape and clear leaves the
  shapes key and the background key (and the users key) of the store as they were,
  whatever calls are rejected; handling an addShape or a removeShape event, or any event
  whose name is not clear, leaves the background key as it was. Both versions of
  \<open>handleUserEvent\<close>.
\<close>

theorem C10_frame_of_handleUserEvent:
  "msg_name m = Inr n \<Longrightarrow> n \<noteq> Some (JStr ''clear'') \<Longrightarrow>
     k_background (store (snd (handleUserEvent m w))) = k_background (store w)
     \<and> k_background (store (snd (handleUserEvent_server m w))) = k_background (store w)
     \<and> k_users (store (snd (handleUserEvent m w))) = k_users (store w)
     \<and> k_users (store (snd (handleUserEvent_server m w))) = k_users (store w)
     \<and> (\<not> known_name n \<longrightarrow>
          k_shapes (store (snd (handleUserEvent m w))) = k_shapes (store w)
          \<and> k_shapes (store (snd (handleUserEvent_server m w))) = k_shapes (store w))"
proof -
  assume n: "msg_name m = Inr n" "n \<noteq> Some (JStr ''clear'')"
  have "\<not> known_name n \<Longrightarrow>
          k_shapes (store (snd (handleUserEvent m w))) = k_shapes (store w)
          \<and> k_shapes (store (snd (handleUserEvent_server m w))) = k_shapes (store w)"
    using unknown_frame [OF n(1), of w] unknown_success_server [OF n(1), of w] by simp
  then show ?thesis
    using background_frame [OF n, of w] background_frame_server [OF n, of w] by blast
qed

text \<open>
  C10 at an event named \<^verbatim>\<open>resize\<close>, at an addShape and at a removeShape event.
\<close>

theorem C10_frame_of_handleUserEvent_witness:
  "msg_name resize_event = Inr (Some (JStr ''resize''))
   \<and> \<not> known_name (Some (JStr ''resize''))
   \<and> k_shapes (store (snd (handleUserEvent resize_event sample_world)))
       = Some [(''a'', JObj [(''x'', JNum ''1'')])]
   \<and> k_shapes (store (snd (handleUserEvent_server resize_event sample_world)))
       = Some [(''a'', JObj [(''x'', JNum ''1'')])]
   \<and> k_background (store (snd (handleUserEvent resize_event sample_world)))
       = Some (JObj [(''id'', JStr ''xyz123'')])
   \<and> k_background (store (snd (handleUserEvent_server resize_event sample_world)))
       = Some (JObj [(''id'', JStr ''xyz123'')])
   \<and> msg_name (encode (AddShape ''b'' JNull)) = Inr (Some (JStr ''addShape''))
   \<and> k_background (store (snd (handleUserEvent (encode (AddShape ''b'' JNull)) sample_world)))
       = Some (JObj [(''id'', JStr ''xyz123'')])
   \<and> k_background (store (snd (handleUserEvent_server (encode (AddShape ''b'' JNull)) sample_world)))
       = Some (JObj [(''id'', JStr ''xyz123'')])
   \<and> msg_name (encode (RemoveShape ''a'')) = Inr (Some (JStr ''removeShape''))
   \<and> k_background (store (snd (handleUserEvent (encode (RemoveShape ''a'')) sample_world)))
       = Some (JObj [(''id'', JStr ''xyz123'')])
   \<and> k_background (store (snd (handleUserEvent_server (encode (RemoveShape ''a'')) sample_world)))
       = Some (JObj [(''id'', JStr ''xyz123'')])"
proof -
  have r: "msg_name resize_event = Inr (Some (JStr ''resize''))"
    "Some (JStr ''resize'') \<noteq> Some (JStr ''clear'')"
    "\<not> known_name (Some (JStr ''resize''))"
    by (simp_all add: resize_event_def msg_name_def known_name_def)
  have a: "msg_name (encode (AddShape ''b'' JNull)) = Inr (Some (JStr ''addShape''))"
    "Some (JStr ''addShape'') \<noteq> Some (JStr ''clear'')"
    by (simp_all add: msg_name_def)
  have d: "msg_name (encode (RemoveShape ''a'')) = Inr (Some (JStr ''removeShape''))"
    "Some (JStr ''removeShape'') \<noteq> Some (JStr ''clear'')"
    by (simp_all add: msg_name_def)
  have s: "k_shapes (store sample_world) = Some [(''a'', JObj [(''x'', JNum ''1'')])]"
    and b: "k_background (store sample_world) = Some (JObj [(''id'', JStr ''xyz123'')])"
    by (simp_all add: sample_world_def)
  show ?thesis
    using C10_frame_of_handleUserEvent [OF r(1) r(2), of sample_world]
      C10_frame_of_handleUserEvent [OF a, of sample_world]
      C10_frame_of_handleUserEvent [OF d, of sample_world]
      r(1) r(3) a(1) d(1)
    unfolding s b by blast
qed

end
